theory Spec2Isabelle
  imports Complex_Main "HOL-Library.AList"
begin

section \<open>The section parser of VCHKPlotter (file\_handler.py)\<close>

text \<open>
  The theory embeds \<^verbatim>\<open>src/VCHKPlotter/file_handler.py\<close>: the line scan of
  \<^verbatim>\<open>FileHandler.parse\<close>, the header cleaning of \<^verbatim>\<open>FileHandler.check_and_clean\<close>,
  the row consumption of \<^verbatim>\<open>Section.parse\<close> and \<^verbatim>\<open>Section.accept_row\<close>, the
  dictionary of \<^verbatim>\<open>StatsFileObject\<close> and \<^verbatim>\<open>coerce_to_appropriate_dtype\<close>.

  The file is its text. \<^verbatim>\<open>open(..., "r")\<close> reads it in text mode, so the iteration over
  the file yields its lines after every line terminator has been translated to a line
  feed (\<open>readlines\<close>); each line has its line feed, the last one possibly none. The
  scan works on these lines (\<open>parse\<close>), and \<open>parse_file\<close> is the scan of a file given by
  its text. The file iterator that
  \<^verbatim>\<open>FileHandler.parse\<close> and \<^verbatim>\<open>Section.parse\<close> share is the list of lines not yet
  read: a function that reads from it returns the remaining list. Exceptions are values
  of a sum type, and what is written to the error stream is kept as a list of messages.

  Text is ASCII: a \<open>char\<close> is a code point below 128, and the character classes of
  Python (\<^verbatim>\<open>\w\<close>, \<^verbatim>\<open>\d\<close>, \<^verbatim>\<open>str.strip\<close>, \<^verbatim>\<open>str.lower\<close>) are modelled on that range.
\<close>

subsection \<open>Strings\<close>

definition tab :: char where
  "tab = CHR 0x09"

definition newline :: char where
  "newline = CHR 0x0A"

definition ascii_uppercase :: string where
  "ascii_uppercase = ''ABCDEFGHIJKLMNOPQRSTUVWXYZ''"

definition ascii_lowercase :: string where
  "ascii_lowercase = ''abcdefghijklmnopqrstuvwxyz''"

definition digits :: string where
  "digits = ''0123456789''"

text \<open>\<^verbatim>\<open>\d\<close> of the regular expressions.\<close>

definition is_digit :: "char \<Rightarrow> bool" where
  "is_digit c = (c \<in> set digits)"

text \<open>\<^verbatim>\<open>\w\<close> of the regular expressions: letters, digits and the underscore.\<close>

definition is_word :: "char \<Rightarrow> bool" where
  "is_word c = (c \<in> set (ascii_lowercase @ ascii_uppercase @ digits @ ''_''))"

text \<open>
  The characters that \<^verbatim>\<open>str.strip()\<close> removes: tab, line feed, vertical tab, form
  feed, carriage return, the four separators 0x1C to 0x1F and the space.
\<close>

definition is_space :: "char \<Rightarrow> bool" where
  "is_space c = (c \<in> set [CHR 0x09, CHR 0x0A, CHR 0x0B, CHR 0x0C, CHR 0x0D,
                           CHR 0x1C, CHR 0x1D, CHR 0x1E, CHR 0x1F, CHR 0x20])"

definition lower_char :: "char \<Rightarrow> char" where
  "lower_char c = (case map_of (zip ascii_uppercase ascii_lowercase) c of
                     Some d \<Rightarrow> d
                   | None \<Rightarrow> c)"

text \<open>\<^verbatim>\<open>s.lower()\<close>\<close>

definition lower :: "string \<Rightarrow> string" where
  "lower s = map lower_char s"

text \<open>\<^verbatim>\<open>s.strip()\<close>\<close>

definition strip :: "string \<Rightarrow> string" where
  "strip s = rev (dropWhile is_space (rev (dropWhile is_space s)))"

text \<open>\<^verbatim>\<open>s.strip().replace("\n", "")\<close>, as both call sites write it.\<close>

definition strip_replace :: "string \<Rightarrow> string" where
  "strip_replace s = filter (\<lambda>c. c \<noteq> newline) (strip s)"

text \<open>
  \<^verbatim>\<open>s.split(sep)\<close> with a one-character separator: one piece more than there are
  separators, empty pieces kept; the result is never empty.
\<close>

primrec split :: "char \<Rightarrow> string \<Rightarrow> string list" where
  "split sep [] = [[]]"
| "split sep (c # cs) =
     (let pieces = split sep cs
      in if c = sep then [] # pieces else (c # hd pieces) # tl pieces)"

text \<open>\<^verbatim>\<open>s.startswith("#")\<close>\<close>

definition startswith_hash :: "string \<Rightarrow> bool" where
  "startswith_hash s = (case s of [] \<Rightarrow> False | c # _ \<Rightarrow> c = CHR ''#'')"

subsection \<open>Reading the file in text mode\<close>

definition carriage_return :: char where
  "carriage_return = CHR 0x0D"

text \<open>
  The newline translation of \<^verbatim>\<open>open(path, "r")\<close> (\<^verbatim>\<open>newline=None\<close>): a carriage return
  followed by a line feed, and a carriage return alone, are read as one line feed.
\<close>

fun universal_newlines :: "string \<Rightarrow> string" where
  "universal_newlines [] = []"
| "universal_newlines [c] = [if c = carriage_return then newline else c]"
| "universal_newlines (c # d # cs) =
     (if c = carriage_return then
        (if d = newline then newline # universal_newlines cs
         else newline # universal_newlines (d # cs))
      else c # universal_newlines (d # cs))"

text \<open>
  The lines of a text, as the iteration over a file yields them: each line ends behind
  its line feed, and what is left behind the last line feed is a line of its own.
\<close>

fun iter_lines :: "string \<Rightarrow> string list" where
  "iter_lines [] = []"
| "iter_lines (c # cs) =
     (if c = newline then [newline] # iter_lines cs
      else (case iter_lines cs of [] \<Rightarrow> [[c]] | l # ls \<Rightarrow> (c # l) # ls))"

text \<open>
  What \<^verbatim>\<open>for line in stats_file\<close> yields for a file with the text \<open>content\<close>.
\<close>

definition readlines :: "string \<Rightarrow> string list" where
  "readlines content = iter_lines (universal_newlines content)"

subsection \<open>Literal values\<close>

text \<open>
  The values \<^verbatim>\<open>coerce_to_appropriate_dtype\<close> can return. \<open>PyFloat r\<close> is the
  float that Python reads from a decimal of value \<open>r\<close> (the nearest double).
  \<open>PyOther s\<close> stands for the result on a text \<open>s\<close> outside the part of the
  literal syntax modelled below (a quoted string, a tuple, a list, a dict, a set, a
  complex number, a number with exponent, underscores or a radix prefix, and so on): the
  value Python evaluates it to, or the text itself when Python rejects it.
\<close>

datatype pyval =
    PyInt int
  | PyFloat real
  | PyBool bool
  | PyNone
  | PyStr string
  | PyOther string

datatype outcome = Evaluates pyval | Raises | Unmodelled

definition nat_of_digits :: "string \<Rightarrow> nat" where
  "nat_of_digits ds = foldl (\<lambda>n c. 10 * n + (of_char c - 48)) 0 ds"

text \<open>
  A decimal integer literal: digits only, and no leading zero unless every digit is
  zero (\<^verbatim>\<open>"007"\<close> is a syntax error, \<^verbatim>\<open>"00"\<close> is zero).
\<close>

definition decinteger :: "string \<Rightarrow> bool" where
  "decinteger s = (s \<noteq> [] \<and> list_all is_digit s \<and>
                   (if take 1 s = ''0'' then list_all (\<lambda>c. c = CHR ''0'') s else True))"

text \<open>An identifier: a letter or underscore, then letters, digits and underscores.\<close>

definition is_identifier :: "string \<Rightarrow> bool" where
  "is_identifier s = (case s of [] \<Rightarrow> False
                   | c # cs \<Rightarrow> is_word c \<and> \<not> is_digit c \<and> list_all is_word cs)"

text \<open>
  \<^verbatim>\<open>ast.literal_eval\<close> is library code; it is modelled on these texts only:
  \<^item> the empty text: a syntax error;
  \<^item> a run of at most 4300 digits, with at most one sign before it: an integer, or a
    syntax error when it has a leading zero (longer runs depend on the interpreter's
    limit for integer conversion);
  \<^item> at most 300 digits, a point, digits: a float (no overflow);
  \<^item> an identifier: \<^verbatim>\<open>True\<close>, \<^verbatim>\<open>False\<close> and \<^verbatim>\<open>None\<close> are constants, every other
    name is rejected (a name is not a literal; a keyword is a syntax error).
  Every other text is \<open>Unmodelled\<close>.
\<close>

definition literal_eval :: "string \<Rightarrow> outcome" where
  "literal_eval s =
     (let sign = (if take 1 s = ''-'' \<or> take 1 s = ''+'' then take 1 s else []);
          body = drop (length sign) s;
          ip = takeWhile is_digit s;
          fp = drop (length ip + 1) s
      in if s = [] then Raises
         else if body \<noteq> [] \<and> list_all is_digit body \<and> length body \<le> 4300 then
           (if decinteger body then
              Evaluates (PyInt (if sign = ''-'' then - int (nat_of_digits body)
                                else int (nat_of_digits body)))
            else Raises)
         else if ip \<noteq> [] \<and> length ip \<le> 300 \<and> take 1 (drop (length ip) s) = ''.'' \<and>
                 fp \<noteq> [] \<and> list_all is_digit fp then
           Evaluates (PyFloat (real (nat_of_digits (ip @ fp)) / 10 ^ length fp))
         else if is_identifier s then
           (if s = ''True'' then Evaluates (PyBool True)
            else if s = ''False'' then Evaluates (PyBool False)
            else if s = ''None'' then Evaluates PyNone
            else Raises)
         else Unmodelled)"

text \<open>
  \<^verbatim>\<open>coerce_to_appropriate_dtype\<close>: the value of \<^verbatim>\<open>ast.literal_eval(val)\<close>, and
  \<^verbatim>\<open>str(val)\<close>, the text itself, when that raises.
\<close>

definition coerce_to_appropriate_dtype :: "string \<Rightarrow> pyval" where
  "coerce_to_appropriate_dtype val =
     (case literal_eval val of
        Evaluates v \<Rightarrow> v
      | Raises \<Rightarrow> PyStr val
      | Unmodelled \<Rightarrow> PyOther val)"

subsection \<open>Exceptions and the error stream\<close>

text \<open>
  \<open>SystemExit n\<close> is \<^verbatim>\<open>exit(n)\<close>; \<open>IOError\<close> is raised by \<^verbatim>\<open>accept_row\<close>;
  \<open>ValueError\<close> is what \<^verbatim>\<open>list.remove\<close> raises for an item that is not in the list.
\<close>

datatype exn = SystemExit nat | IOError | ValueError

text \<open>\<^verbatim>\<open>utils.error\<close>: one more message on the error stream.\<close>

definition error :: "string \<Rightarrow> string list \<Rightarrow> string list" where
  "error message err = err @ [''Error: '' @ message]"

subsection \<open>Section\<close>

text \<open>
  \<^verbatim>\<open>data_frame\<close> is \<open>None\<close> until \<^verbatim>\<open>Section.parse\<close> builds the table; the table
  \<^verbatim>\<open>pd.DataFrame(columns=..., data=...)\<close> is the pair of the column names and the rows
  it is built from.
\<close>

record sect =
  title :: string
  columns :: "string list"
  rows :: "pyval list list"
  text_rows :: "string list"
  data_frame :: "(string list \<times> pyval list list) option"

text \<open>\<^verbatim>\<open>Section.__init__\<close>\<close>

definition Section :: "string \<Rightarrow> string list \<Rightarrow> string \<Rightarrow> sect" where
  "Section t cols header =
     \<lparr>title = t, columns = cols, rows = [], text_rows = [header], data_frame = None\<rparr>"

text \<open>\<^verbatim>\<open>Section.accept_row\<close>\<close>

definition accept_row :: "sect \<Rightarrow> string \<Rightarrow> exn + sect" where
  "accept_row s row =
     (let split_on_delimiter = drop 1 (split tab row)
      in if length split_on_delimiter \<noteq> length (columns s) then Inl IOError
         else Inr (s\<lparr>rows := rows s @ [map coerce_to_appropriate_dtype split_on_delimiter]\<rparr>))"

text \<open>
  \<^verbatim>\<open>Section.parse\<close>. The second component is the iterator after the call: every line
  that \<^verbatim>\<open>next\<close> returned is gone from it, the line that ended the loop included.
\<close>

fun Section_parse :: "sect \<Rightarrow> string list \<Rightarrow> (exn + sect) \<times> string list" where
  "Section_parse s [] = (Inr (s\<lparr>data_frame := Some (columns s, rows s)\<rparr>), [])"
| "Section_parse s (next_line # it) =
     (if startswith_hash next_line then
        (Inr (s\<lparr>data_frame := Some (columns s, rows s)\<rparr>), it)
      else
        (case accept_row (s\<lparr>text_rows := text_rows s @ [next_line]\<rparr>)
                (strip_replace next_line) of
           Inl e \<Rightarrow> (Inl e, it)
         | Inr s' \<Rightarrow> Section_parse s' it))"

text \<open>\<^verbatim>\<open>Section.get_text\<close>\<close>

definition get_text :: "sect \<Rightarrow> string list" where
  "get_text s = text_rows s"

subsection \<open>StatsFileObject\<close>

text \<open>
  The dictionary \<^verbatim>\<open>_sections\<close>, in insertion order: storing under a key that is
  present replaces the value in place, a new key goes to the end.
\<close>

type_synonym stats_file_object = "(string \<times> sect) list"

definition add_section :: "stats_file_object \<Rightarrow> string \<Rightarrow> sect \<Rightarrow> stats_file_object" where
  "add_section sfo name sec = AList.update name sec sfo"

text \<open>\<^verbatim>\<open>get_section\<close>; \<open>None\<close> is the \<^verbatim>\<open>KeyError\<close> of a missing key.\<close>

definition get_section :: "stats_file_object \<Rightarrow> string \<Rightarrow> sect option" where
  "get_section sfo name = map_of sfo name"

subsection \<open>FileHandler\<close>

text \<open>
  \<^verbatim>\<open>SECTION_HEADER_PATTERN.match(line)\<close> for \<^verbatim>\<open># (\w+)\t\<close>: the line starts with
  \<^verbatim>\<open>#\<close> and a space, then one or more word characters, then a tab. Only whether it
  matches is used.
\<close>

definition SECTION_HEADER_PATTERN :: "string \<Rightarrow> bool" where
  "SECTION_HEADER_PATTERN line =
     (take 2 line = ''# '' \<and> takeWhile is_word (drop 2 line) \<noteq> [] \<and>
      take 1 (dropWhile is_word (drop 2 line)) = [tab])"

text \<open>
  \<^verbatim>\<open>SECTION_HEADER_CONSTITUENT.match(s)\<close> for \<^verbatim>\<open>\[\d+\](.+)\<close>: an opening bracket,
  one or more digits, a closing bracket, then one or more characters other than a
  newline, as many as there are; the result is group 1, \<open>None\<close> when there is no match.
\<close>

definition SECTION_HEADER_CONSTITUENT :: "string \<Rightarrow> string option" where
  "SECTION_HEADER_CONSTITUENT s =
     (let ds = takeWhile is_digit (drop 1 s);
          r = dropWhile is_digit (drop 1 s);
          g = takeWhile (\<lambda>c. c \<noteq> newline) (drop 1 r)
      in if take 1 s = ''['' \<and> ds \<noteq> [] \<and> take 1 r = '']'' \<and> g \<noteq> [] then Some g
         else None)"

text \<open>
  The caller's list of requested section codes, which \<^verbatim>\<open>parse\<close> changes, and the error
  stream.
\<close>

record world =
  actions :: "string list"
  stderr :: "string list"

text \<open>
  \<^verbatim>\<open>check_and_clean\<close>: the cleaned column name, or the message and \<^verbatim>\<open>exit(1)\<close>.
\<close>

definition check_and_clean :: "string \<Rightarrow> string list \<Rightarrow> (exn + string) \<times> string list" where
  "check_and_clean line_to_clean err =
     (case SECTION_HEADER_CONSTITUENT (strip_replace line_to_clean) of
        None \<Rightarrow> (Inl (SystemExit 1), error ''File not in correct format'' err)
      | Some g \<Rightarrow> (Inr (lower g), err))"

text \<open>
  \<^verbatim>\<open>list(map(self.check_and_clean, fields))\<close>: from left to right, stopping at the first
  field that exits.
\<close>

fun map_check_and_clean :: "string list \<Rightarrow> string list \<Rightarrow> (exn + string list) \<times> string list" where
  "map_check_and_clean [] err = (Inr [], err)"
| "map_check_and_clean (f # fs) err =
     (case check_and_clean f err of
        (Inl e, err') \<Rightarrow> (Inl e, err')
      | (Inr c, err') \<Rightarrow>
          (case map_check_and_clean fs err' of
             (Inl e, err'') \<Rightarrow> (Inl e, err'')
           | (Inr cs, err'') \<Rightarrow> (Inr (c # cs), err'')))"

text \<open>The message \<^verbatim>\<open>f"Could not parse section {data_type_title} properly"\<close>.\<close>

definition could_not_parse :: "string \<Rightarrow> string" where
  "could_not_parse data_type_title = ''Could not parse section '' @ data_type_title @ '' properly''"

text \<open>
  The body of the loop \<^verbatim>\<open>for line in stats_file\<close> of \<^verbatim>\<open>FileHandler.parse\<close>, for
  the line just read and the iterator behind it. It ends in an exception that leaves
  the loop, or in the dictionary, the world and the iterator with which the loop goes on.
  An \<^verbatim>\<open>IOError\<close> from \<^verbatim>\<open>section.parse\<close> is caught: the code is removed from
  \<^verbatim>\<open>_actions\<close> (which raises \<^verbatim>\<open>ValueError\<close> when it is not there) and the message is
  written; every other exception leaves the loop.
\<close>

definition loop_body ::
  "stats_file_object \<Rightarrow> world \<Rightarrow> string \<Rightarrow> string list
     \<Rightarrow> exn \<times> world + stats_file_object \<times> world \<times> string list" where
  "loop_body sfo w line it =
     (if \<not> SECTION_HEADER_PATTERN line then Inr (sfo, w, it)
      else
        let line_split = split tab line;
            data_type_title = lower (drop 2 (hd line_split))
        in case map_check_and_clean (tl line_split) (stderr w) of
             (Inl e, err) \<Rightarrow> Inl (e, w\<lparr>stderr := err\<rparr>)
           | (Inr cols, err) \<Rightarrow>
               if data_type_title \<in> set (actions w) \<or> data_type_title = ''sn'' then
                 (case Section_parse (Section data_type_title cols line) it of
                    (Inr sec, it') \<Rightarrow>
                      Inr (add_section sfo data_type_title sec, w\<lparr>stderr := err\<rparr>, it')
                  | (Inl e, it') \<Rightarrow>
                      if e \<noteq> IOError then Inl (e, w\<lparr>stderr := err\<rparr>)
                      else if data_type_title \<notin> set (actions w) then
                        Inl (ValueError, w\<lparr>stderr := err\<rparr>)
                      else
                        Inr (sfo,
                             w\<lparr>actions := remove1 data_type_title (actions w),
                               stderr := error (could_not_parse data_type_title) err\<rparr>,
                             it'))
               else Inr (sfo, w\<lparr>stderr := err\<rparr>, it))"

lemma Section_parse_length: "length (snd (Section_parse s it)) \<le> length it"
  by (induction it arbitrary: s) (auto split: sum.splits intro: le_SucI)

lemma loop_body_length:
  "loop_body sfo w line it = Inr (sfo', w', it') \<Longrightarrow> length it' \<le> length it"
  using Section_parse_length [of "Section (lower (drop 2 (hd (split tab line)))) cols line" it for cols]
  by (auto simp: loop_body_def Let_def split: if_splits prod.splits sum.splits)
    (metis snd_conv)+

text \<open>
  The loop on the lines not yet read, and the \<^verbatim>\<open>return stats_file_object\<close> after it.
\<close>

function scan ::
  "stats_file_object \<Rightarrow> world \<Rightarrow> string list \<Rightarrow> (exn + stats_file_object) \<times> world" where
  "scan sfo w [] = (Inr sfo, w)"
| "scan sfo w (line # it) =
     (case loop_body sfo w line it of
        Inl (e, w') \<Rightarrow> (Inl e, w')
      | Inr (sfo', w', it') \<Rightarrow> scan sfo' w' it')"
  by pat_completeness auto
termination
  by (relation "measure (\<lambda>(sfo, w, ls). length ls)")
    (auto dest: loop_body_length simp: less_Suc_eq_le)

text \<open>
  \<^verbatim>\<open>FileHandler.parse\<close>, given what the iteration over the open file yields: the
  argument is the list of the lines of the file at \<^verbatim>\<open>_in_file\<close>, already translated,
  and \<open>None\<close> when \<^verbatim>\<open>open\<close> raises \<^verbatim>\<open>FileNotFoundError\<close>.
\<close>

definition parse :: "string list option \<Rightarrow> world \<Rightarrow> (exn + stats_file_object) \<times> world" where
  "parse stats_file w =
     (case stats_file of
        None \<Rightarrow> (Inl (SystemExit 1), w\<lparr>stderr := error ''No such file'' (stderr w)\<rparr>)
      | Some ls \<Rightarrow> scan [] w ls)"

text \<open>
  \<^verbatim>\<open>FileHandler.parse\<close> from the text of the file at \<^verbatim>\<open>_in_file\<close> (\<open>None\<close> when there is
  no such file): \<^verbatim>\<open>open\<close> in text mode, and the scan of the lines it yields.
\<close>

definition parse_file :: "string option \<Rightarrow> world \<Rightarrow> (exn + stats_file_object) \<times> world" where
  "parse_file content w = parse (map_option readlines content) w"

section \<open>Notions for the properties\<close>

text \<open>
  The definitions of this section are not functions of the source: they name the parts
  of a file and the states of the loop that the properties below are about.
\<close>

subsection \<open>Rows and sections\<close>

text \<open>
  The values of a body line, as \<^verbatim>\<open>Section.parse\<close> and \<^verbatim>\<open>accept_row\<close> count them: the
  line is stripped, split at the tabs, and the first piece is dropped.
\<close>

definition fields_of :: "string \<Rightarrow> string list" where
  "fields_of l = drop 1 (split tab (strip_replace l))"

text \<open>A line that \<^verbatim>\<open>Section.parse\<close> takes as a row of a section with \<open>n\<close> columns.\<close>

definition data_row :: "nat \<Rightarrow> string \<Rightarrow> bool" where
  "data_row n l = (\<not> startswith_hash l \<and> length (fields_of l) = n)"

text \<open>The iterator is at the end of a section: exhausted, or at a line starting with \<^verbatim>\<open>#\<close>.\<close>

definition at_boundary :: "string list \<Rightarrow> bool" where
  "at_boundary ls = (case ls of [] \<Rightarrow> True | b # _ \<Rightarrow> startswith_hash b)"

text \<open>The rows that the body lines of a section give.\<close>

definition table_of :: "string list \<Rightarrow> pyval list list" where
  "table_of body = map (\<lambda>l. map coerce_to_appropriate_dtype (fields_of l)) body"

text \<open>The section object after \<^verbatim>\<open>Section.parse\<close> has taken the lines \<open>body\<close>.\<close>

definition finished :: "sect \<Rightarrow> string list \<Rightarrow> sect" where
  "finished s body =
     s\<lparr>rows := rows s @ table_of body, text_rows := text_rows s @ body,
       data_frame := Some (columns s, rows s @ table_of body)\<rparr>"

subsection \<open>Header lines\<close>

text \<open>The section code that \<^verbatim>\<open>parse\<close> reads from a header line (\<^verbatim>\<open>data_type_title\<close>).\<close>

definition header_title :: "string \<Rightarrow> string" where
  "header_title line = lower (drop 2 (hd (split tab line)))"

text \<open>
  The column names that a header line declares, \<open>None\<close> when one of its fields does not
  match \<^verbatim>\<open>SECTION_HEADER_CONSTITUENT\<close>: what \<^verbatim>\<open>map_check_and_clean\<close> computes, without the
  error stream.
\<close>

definition header_columns :: "string \<Rightarrow> string list option" where
  "header_columns line =
     map_option (map lower)
       (those (map (\<lambda>f. SECTION_HEADER_CONSTITUENT (strip_replace f)) (tl (split tab line))))"

text \<open>The test that decides whether a section is parsed.\<close>

definition parsed_title :: "world \<Rightarrow> string \<Rightarrow> bool" where
  "parsed_title w t = (t \<in> set (actions w) \<or> t = ''sn'')"

subsection \<open>Where a section of the result comes from\<close>

text \<open>
  Where a section of the result comes from: the lines \<open>ls\<close> hold a header line with the
  code \<open>name\<close>, followed by rows of the declared length up to the end of the section,
  and \<open>sec\<close> is the section object built from exactly these lines.
\<close>

definition section_at :: "string list \<Rightarrow> string \<Rightarrow> sect \<Rightarrow> bool" where
  "section_at ls name sec =
     (\<exists>pre h cols body post.
        ls = pre @ h # body @ post \<and> SECTION_HEADER_PATTERN h \<and> header_title h = name \<and>
        header_columns h = Some cols \<and> list_all (data_row (length cols)) body \<and>
        at_boundary post \<and> sec = finished (Section name cols h) body)"

subsection \<open>The turns of the loop\<close>

text \<open>
  The states in which the turns of the loop \<^verbatim>\<open>for line in stats_file\<close> start, from a
  given state on: the dictionary, the world, and the lines from the one the turn reads
  on. A line of the file is read by the loop itself exactly when a turn starts at it; the
  lines that \<^verbatim>\<open>Section.parse\<close> takes from the iterator are not.
\<close>

function turns ::
  "stats_file_object \<Rightarrow> world \<Rightarrow> string list
     \<Rightarrow> (stats_file_object \<times> world \<times> string list) list" where
  "turns sfo w [] = []"
| "turns sfo w (line # it) =
     (sfo, w, line # it) #
     (case loop_body sfo w line it of
        Inl (e, w') \<Rightarrow> []
      | Inr (sfo', w', it') \<Rightarrow> turns sfo' w' it')"
  by pat_completeness auto
termination
  by (relation "measure (\<lambda>(sfo, w, ls). length ls)")
    (auto dest: loop_body_length simp: less_Suc_eq_le)

subsection \<open>Kinds of values\<close>


subsection \<open>Decimal texts\<close>



subsection \<open>Example files\<close>

text \<open>
  A line of the file from its tab-separated pieces, with its line feed.
\<close>

fun join_tab :: "string list \<Rightarrow> string" where
  "join_tab [] = []"
| "join_tab [f] = f"
| "join_tab (f # g # fs) = f @ tab # join_tab (g # fs)"

definition tsv :: "string list \<Rightarrow> string" where
  "tsv fs = join_tab fs @ [newline]"

text \<open>
  A file in the layout of \<^verbatim>\<open>bcftools stats\<close>: a comment line before each header line.
\<close>

definition vchk_example :: "string list" where
  "vchk_example =
     [''# SN, Summary numbers:'' @ [newline],
      tsv [''# SN'', ''[2]id'', ''[3]key'', ''[4]value''],
      tsv [''SN'', ''0'', ''samples'', ''1''],
      tsv [''SN'', ''0'', ''records'', ''25''],
      ''# DP, Depth distribution'' @ [newline],
      tsv [''# DP'', ''[2]id'', ''[3]Bin'', ''[4]Fraction''],
      tsv [''DP'', ''0'', ''12'', ''3.5''],
      ''# PSC, Per-sample counts'' @ [newline],
      tsv [''# PSC'', ''[2]id'', ''[3]sample''],
      tsv [''PSC'', ''0'', ''NA12878'']]"

text \<open>The two sections that \<^verbatim>\<open>parse\<close> builds from it when \<^verbatim>\<open>dp\<close> is requested.\<close>

definition sn_example :: sect where
  "sn_example =
     \<lparr>title = ''sn'', columns = [''id'', ''key'', ''value''],
      rows = [[PyInt 0, PyStr ''samples'', PyInt 1],
              [PyInt 0, PyStr ''records'', PyInt 25]],
      text_rows = [tsv [''# SN'', ''[2]id'', ''[3]key'', ''[4]value''],
                   tsv [''SN'', ''0'', ''samples'', ''1''],
                   tsv [''SN'', ''0'', ''records'', ''25'']],
      data_frame = Some ([''id'', ''key'', ''value''],
                         [[PyInt 0, PyStr ''samples'', PyInt 1],
                          [PyInt 0, PyStr ''records'', PyInt 25]])\<rparr>"

definition dp_example :: sect where
  "dp_example =
     \<lparr>title = ''dp'', columns = [''id'', ''bin'', ''fraction''],
      rows = [[PyInt 0, PyInt 12, PyFloat 3.5]],
      text_rows = [tsv [''# DP'', ''[2]id'', ''[3]Bin'', ''[4]Fraction''],
                   tsv [''DP'', ''0'', ''12'', ''3.5'']],
      data_frame = Some ([''id'', ''bin'', ''fraction''], [[PyInt 0, PyInt 12, PyFloat 3.5]])\<rparr>"

text \<open>
  A file in the layout of the format description alone: each header line directly after
  the last row of the section before it.
\<close>

definition vchk_adjacent :: "string list" where
  "vchk_adjacent =
     [tsv [''# SN'', ''[2]id'', ''[3]key'', ''[4]value''],
      tsv [''SN'', ''0'', ''samples'', ''1''],
      tsv [''# DP'', ''[2]id'', ''[3]Bin'', ''[4]Fraction''],
      tsv [''DP'', ''0'', ''12'', ''3.5''],
      tsv [''# PSC'', ''[2]id'', ''[3]sample''],
      tsv [''PSC'', ''0'', ''NA12878'']]"

definition sn_adjacent :: sect where
  "sn_adjacent =
     \<lparr>title = ''sn'', columns = [''id'', ''key'', ''value''],
      rows = [[PyInt 0, PyStr ''samples'', PyInt 1]],
      text_rows = [tsv [''# SN'', ''[2]id'', ''[3]key'', ''[4]value''],
                   tsv [''SN'', ''0'', ''samples'', ''1'']],
      data_frame = Some ([''id'', ''key'', ''value''],
                         [[PyInt 0, PyStr ''samples'', PyInt 1]])\<rparr>"

text \<open>A file with two sections of the code \<^verbatim>\<open>DP\<close>, and the section built from the first.\<close>

definition vchk_twice :: "string list" where
  "vchk_twice =
     [tsv [''# DP'', ''[2]id'', ''[3]Bin''],
      tsv [''DP'', ''0'', ''1''],
      ''# DP, second part'' @ [newline],
      tsv [''# DP'', ''[2]id'', ''[3]Bin'', ''[4]Fraction''],
      tsv [''DP'', ''0'', ''12'', ''3.5'']]"

definition dp_first :: sect where
  "dp_first =
     \<lparr>title = ''dp'', columns = [''id'', ''bin''], rows = [[PyInt 0, PyInt 1]],
      text_rows = [tsv [''# DP'', ''[2]id'', ''[3]Bin''], tsv [''DP'', ''0'', ''1'']],
      data_frame = Some ([''id'', ''bin''], [[PyInt 0, PyInt 1]])\<rparr>"

text \<open>
  A file whose summary section declares three columns and has a row with two values, and
  a depth section behind it.
\<close>

definition vchk_short_row :: "string list" where
  "vchk_short_row =
     [tsv [''# SN'', ''[2]id'', ''[3]key'', ''[4]value''],
      tsv [''SN'', ''0'', ''samples''],
      ''# DP, Depth distribution'' @ [newline],
      tsv [''# DP'', ''[2]id'', ''[3]Bin'', ''[4]Fraction''],
      tsv [''DP'', ''0'', ''12'', ''3.5'']]"

text \<open>
  A file whose second header line has fields without the index in brackets, directly
  after the row of the summary section.
\<close>

definition vchk_bad_header :: "string list" where
  "vchk_bad_header =
     [tsv [''# SN'', ''[2]id'', ''[3]key'', ''[4]value''],
      tsv [''SN'', ''0'', ''samples'', ''1''],
      tsv [''# DP'', ''id'', ''Bin'', ''Fraction''],
      tsv [''DP'', ''0'', ''12'', ''3.5'']]"

text \<open>
  A file with the line terminators of Windows (carriage return, line feed), and the
  section that \<^verbatim>\<open>parse\<close> builds from it.
\<close>

definition crlf_example :: string where
  "crlf_example =
     ''# SN'' @ [tab] @ ''[2]id'' @ [carriage_return, newline] @
     ''SN'' @ [tab] @ ''0'' @ [carriage_return, newline]"

definition sn_crlf :: sect where
  "sn_crlf =
     \<lparr>title = ''sn'', columns = [''id''], rows = [[PyInt 0]],
      text_rows = [tsv [''# SN'', ''[2]id''], tsv [''SN'', ''0'']],
      data_frame = Some ([''id''], [[PyInt 0]])\<rparr>"

text \<open>The caller requested \<^verbatim>\<open>dp\<close> alone; nothing was written to the error stream yet.\<close>

definition requested_dp :: world where
  "requested_dp = \<lparr>actions = [''dp''], stderr = []\<rparr>"

section \<open>Properties of the embedding\<close>

subsection \<open>What Section.parse consumes\<close>

lemma accept_row_good:
  "length (fields_of l) = length (columns s) \<Longrightarrow>
   accept_row s (strip_replace l) =
     Inr (s\<lparr>rows := rows s @ [map coerce_to_appropriate_dtype (fields_of l)]\<rparr>)"
  by (simp add: accept_row_def fields_of_def)

lemma accept_row_bad:
  "length (fields_of l) \<noteq> length (columns s) \<Longrightarrow> accept_row s (strip_replace l) = Inl IOError"
  by (simp add: accept_row_def fields_of_def)

lemma Section_parse_good:
  "list_all (data_row (length (columns s))) body \<Longrightarrow> at_boundary rest \<Longrightarrow>
   Section_parse s (body @ rest) = (Inr (finished s body), tl rest)"
proof (induction body arbitrary: s)
  case Nil
  then show ?case
    by (cases rest) (simp_all add: at_boundary_def finished_def table_of_def)
next
  case (Cons l body)
  let ?s' = "s\<lparr>text_rows := text_rows s @ [l],
               rows := rows s @ [map coerce_to_appropriate_dtype (fields_of l)]\<rparr>"
  from Cons.prems have "data_row (length (columns s)) l"
    and body: "list_all (data_row (length (columns ?s'))) body"
    by simp_all
  then have l: "\<not> startswith_hash l" "length (fields_of l) = length (columns s)"
    by (simp_all add: data_row_def)
  have "Section_parse s ((l # body) @ rest) = Section_parse ?s' (body @ rest)"
    using l by (simp add: accept_row_good)
  also have "\<dots> = (Inr (finished ?s' body), tl rest)"
    using Cons.IH [OF body Cons.prems(2)] .
  also have "finished ?s' body = finished s (l # body)"
    by (simp add: finished_def table_of_def)
  finally show ?case .
qed

lemma Section_parse_bad:
  "list_all (data_row (length (columns s))) body \<Longrightarrow> \<not> startswith_hash bad \<Longrightarrow>
   length (fields_of bad) \<noteq> length (columns s) \<Longrightarrow>
   Section_parse s (body @ bad # rest) = (Inl IOError, rest)"
proof (induction body arbitrary: s)
  case Nil
  then show ?case by (simp add: accept_row_bad)
next
  case (Cons l body)
  let ?s' = "s\<lparr>text_rows := text_rows s @ [l],
               rows := rows s @ [map coerce_to_appropriate_dtype (fields_of l)]\<rparr>"
  from Cons.prems have "data_row (length (columns s)) l"
    and body: "list_all (data_row (length (columns ?s'))) body"
    by simp_all
  then have l: "\<not> startswith_hash l" "length (fields_of l) = length (columns s)"
    by (simp_all add: data_row_def)
  have "Section_parse s ((l # body) @ bad # rest) = Section_parse ?s' (body @ bad # rest)"
    using l by (simp add: accept_row_good)
  also have "\<dots> = (Inl IOError, rest)"
    using Cons.IH [OF body Cons.prems(2)] Cons.prems(3) by simp
  finally show ?case .
qed

text \<open>Every iterator is of one of the two forms, so the two lemmas above describe every call.\<close>

lemma Section_parse_cases:
  "(\<exists>body rest. it = body @ rest \<and> list_all (data_row (length (columns s))) body \<and> at_boundary rest)
   \<or> (\<exists>body bad rest. it = body @ bad # rest \<and> list_all (data_row (length (columns s))) body \<and>
         \<not> startswith_hash bad \<and> length (fields_of bad) \<noteq> length (columns s))"
proof (induction it)
  case Nil
  have "[] = [] @ ([]::string list) \<and> list_all (data_row (length (columns s))) [] \<and> at_boundary []"
    by (simp add: at_boundary_def)
  then show ?case by blast
next
  case (Cons l it)
  show ?case
  proof (cases "startswith_hash l")
    case True
    then have "l # it = [] @ (l # it) \<and> list_all (data_row (length (columns s))) [] \<and> at_boundary (l # it)"
      by (simp add: at_boundary_def)
    then show ?thesis by blast
  next
    case False
    show ?thesis
    proof (cases "length (fields_of l) = length (columns s)")
      case bad: False
      with False have "l # it = [] @ l # it \<and> list_all (data_row (length (columns s))) [] \<and>
         \<not> startswith_hash l \<and> length (fields_of l) \<noteq> length (columns s)"
        by simp
      then show ?thesis by blast
    next
      case True
      with False have row: "data_row (length (columns s)) l"
        by (simp add: data_row_def)
      from Cons.IH show ?thesis
      proof (elim disjE exE conjE)
        fix body rest
        assume "it = body @ rest" "list_all (data_row (length (columns s))) body" "at_boundary rest"
        with row have "l # it = (l # body) @ rest \<and> list_all (data_row (length (columns s))) (l # body)
           \<and> at_boundary rest" by simp
        then show ?thesis by blast
      next
        fix body bad rest
        assume "it = body @ bad # rest" "list_all (data_row (length (columns s))) body"
          "\<not> startswith_hash bad" "length (fields_of bad) \<noteq> length (columns s)"
        with row have "l # it = (l # body) @ bad # rest \<and> list_all (data_row (length (columns s))) (l # body)
           \<and> \<not> startswith_hash bad \<and> length (fields_of bad) \<noteq> length (columns s)" by simp
        then show ?thesis by blast
      qed
    qed
  qed
qed

lemma Section_parse_Inr:
  assumes "Section_parse s it = (Inr s', it')"
  obtains body rest where "it = body @ rest" "list_all (data_row (length (columns s))) body"
    "at_boundary rest" "s' = finished s body" "it' = tl rest"
proof -
  from Section_parse_cases [of it s] show thesis
  proof (elim disjE exE conjE)
    fix body rest
    assume *: "it = body @ rest" "list_all (data_row (length (columns s))) body" "at_boundary rest"
    with assms Section_parse_good [of s body rest] have "s' = finished s body" "it' = tl rest"
      by simp_all
    with * show thesis by (rule that)
  next
    fix body bad rest
    assume "it = body @ bad # rest" "list_all (data_row (length (columns s))) body"
      "\<not> startswith_hash bad" "length (fields_of bad) \<noteq> length (columns s)"
    with assms Section_parse_bad [of s body bad rest] show thesis by simp
  qed
qed

lemma Section_parse_Inl:
  assumes "Section_parse s it = (Inl e, it')"
  obtains body bad where "it = body @ bad # it'" "list_all (data_row (length (columns s))) body"
    "\<not> startswith_hash bad" "length (fields_of bad) \<noteq> length (columns s)" "e = IOError"
proof -
  from Section_parse_cases [of it s] show thesis
  proof (elim disjE exE conjE)
    fix body rest
    assume *: "it = body @ rest" "list_all (data_row (length (columns s))) body" "at_boundary rest"
    with assms Section_parse_good [of s body rest] show thesis by simp
  next
    fix body bad rest
    assume *: "it = body @ bad # rest" "list_all (data_row (length (columns s))) body"
      "\<not> startswith_hash bad" "length (fields_of bad) \<noteq> length (columns s)"
    with assms Section_parse_bad [of s body bad rest] have "e = IOError" "it' = rest"
      by simp_all
    with * show thesis using that by blast
  qed
qed

subsection \<open>One turn of the loop\<close>

lemma map_check_and_clean_eq:
  "map_check_and_clean fs err =
     (case those (map (\<lambda>f. SECTION_HEADER_CONSTITUENT (strip_replace f)) fs) of
        None \<Rightarrow> (Inl (SystemExit 1), error ''File not in correct format'' err)
      | Some gs \<Rightarrow> (Inr (map lower gs), err))"
  by (induction fs) (auto simp: check_and_clean_def split: option.splits)

lemma map_check_and_clean_header:
  "map_check_and_clean (tl (split tab line)) err =
     (case header_columns line of
        None \<Rightarrow> (Inl (SystemExit 1), error ''File not in correct format'' err)
      | Some cols \<Rightarrow> (Inr cols, err))"
  by (simp add: map_check_and_clean_eq header_columns_def split: option.splits)

lemma loop_body_not_header:
  "\<not> SECTION_HEADER_PATTERN line \<Longrightarrow> loop_body sfo w line it = Inr (sfo, w, it)"
  by (simp add: loop_body_def)

lemma loop_body_malformed:
  "SECTION_HEADER_PATTERN line \<Longrightarrow> header_columns line = None \<Longrightarrow>
   loop_body sfo w line it =
     Inl (SystemExit 1, w\<lparr>stderr := error ''File not in correct format'' (stderr w)\<rparr>)"
  by (simp add: loop_body_def Let_def map_check_and_clean_header)

lemma loop_body_skip:
  "SECTION_HEADER_PATTERN line \<Longrightarrow> header_columns line = Some cols \<Longrightarrow>
   \<not> parsed_title w (header_title line) \<Longrightarrow> loop_body sfo w line it = Inr (sfo, w, it)"
  by (simp add: loop_body_def Let_def map_check_and_clean_header parsed_title_def header_title_def)

lemma loop_body_good:
  assumes "SECTION_HEADER_PATTERN line" "header_columns line = Some cols"
    and "parsed_title w (header_title line)"
    and "list_all (data_row (length cols)) body" "at_boundary rest"
  shows "loop_body sfo w line (body @ rest) =
           Inr (add_section sfo (header_title line)
                  (finished (Section (header_title line) cols line) body), w, tl rest)"
proof -
  have "Section_parse (Section (header_title line) cols line) (body @ rest) =
          (Inr (finished (Section (header_title line) cols line) body), tl rest)"
    using assms(4,5) by (intro Section_parse_good) (simp_all add: Section_def)
  with assms(1-3) show ?thesis
    by (simp add: loop_body_def Let_def map_check_and_clean_header parsed_title_def header_title_def)
qed

lemma loop_body_bad:
  assumes "SECTION_HEADER_PATTERN line" "header_columns line = Some cols"
    and "parsed_title w (header_title line)"
    and "list_all (data_row (length cols)) body" "\<not> startswith_hash bad"
    and "length (fields_of bad) \<noteq> length cols"
  shows "loop_body sfo w line (body @ bad # rest) =
           (if header_title line \<in> set (actions w) then
              Inr (sfo,
                   w\<lparr>actions := remove1 (header_title line) (actions w),
                     stderr := error (could_not_parse (header_title line)) (stderr w)\<rparr>,
                   rest)
            else Inl (ValueError, w))"
proof -
  have "Section_parse (Section (header_title line) cols line) (body @ bad # rest) =
          (Inl IOError, rest)"
    using assms(4-6) by (intro Section_parse_bad) (simp_all add: Section_def)
  with assms(1-3) show ?thesis
    by (simp add: loop_body_def Let_def map_check_and_clean_header parsed_title_def header_title_def)
qed

text \<open>What one turn of the loop can have done when the loop goes on.\<close>

lemma loop_body_Inr_cases:
  assumes "loop_body sfo w line it = Inr (sfo', w', it')"
  obtains
    (skip) "sfo' = sfo" "w' = w" "it' = it"
      "\<not> (SECTION_HEADER_PATTERN line \<and> parsed_title w (header_title line))"
  | (parsed) cols body rest where
      "SECTION_HEADER_PATTERN line" "header_columns line = Some cols"
      "parsed_title w (header_title line)"
      "it = body @ rest" "list_all (data_row (length cols)) body" "at_boundary rest"
      "sfo' = add_section sfo (header_title line)
                (finished (Section (header_title line) cols line) body)"
      "w' = w" "it' = tl rest"
  | (violation) cols body bad where
      "SECTION_HEADER_PATTERN line" "header_columns line = Some cols"
      "header_title line \<in> set (actions w)"
      "it = body @ bad # it'" "list_all (data_row (length cols)) body"
      "\<not> startswith_hash bad" "length (fields_of bad) \<noteq> length cols"
      "sfo' = sfo"
      "w' = w\<lparr>actions := remove1 (header_title line) (actions w),
               stderr := error (could_not_parse (header_title line)) (stderr w)\<rparr>"
proof (cases "SECTION_HEADER_PATTERN line")
  case False
  with assms show thesis by (intro skip) (simp_all add: loop_body_not_header)
next
  case hdr: True
  show thesis
  proof (cases "header_columns line")
    case None
    with hdr assms show thesis by (simp add: loop_body_malformed)
  next
    case (Some cols)
    show thesis
    proof (cases "parsed_title w (header_title line)")
      case False
      with hdr Some assms show thesis by (intro skip) (simp_all add: loop_body_skip)
    next
      case req: True
      from Section_parse_cases [of it "Section (header_title line) cols line"]
      have "(\<exists>body rest. it = body @ rest \<and> list_all (data_row (length cols)) body \<and> at_boundary rest)
          \<or> (\<exists>body bad rest. it = body @ bad # rest \<and> list_all (data_row (length cols)) body \<and>
               \<not> startswith_hash bad \<and> length (fields_of bad) \<noteq> length cols)"
        by (simp add: Section_def)
      then show thesis
      proof (elim disjE exE conjE)
        fix body rest
        assume *: "it = body @ rest" "list_all (data_row (length cols)) body" "at_boundary rest"
        with assms loop_body_good [OF hdr Some req *(2,3), of sfo]
        have "sfo' = add_section sfo (header_title line)
                (finished (Section (header_title line) cols line) body)" "w' = w" "it' = tl rest"
          by simp_all
        with hdr Some req * show thesis by (intro parsed)
      next
        fix body bad rest
        assume *: "it = body @ bad # rest" "list_all (data_row (length cols)) body"
          "\<not> startswith_hash bad" "length (fields_of bad) \<noteq> length cols"
        with assms loop_body_bad [OF hdr Some req *(2-4), of sfo rest]
        have "header_title line \<in> set (actions w)" "sfo' = sfo" "it' = rest"
          "w' = w\<lparr>actions := remove1 (header_title line) (actions w),
               stderr := error (could_not_parse (header_title line)) (stderr w)\<rparr>"
          by (simp_all split: if_splits)
        with hdr Some * show thesis by (intro violation) simp_all
      qed
    qed
  qed
qed

lemma scan_induct' [case_names Nil Cons]:
  assumes "\<And>sfo w. P sfo w []"
    and "\<And>sfo w line it.
           (\<And>sfo' w' it'. loop_body sfo w line it = Inr (sfo', w', it') \<Longrightarrow> P sfo' w' it')
           \<Longrightarrow> P sfo w (line # it)"
  shows "P sfo w ls"
  using assms by (induction sfo w ls rule: scan.induct) auto

lemma scan_Cons_Inr:
  assumes "scan sfo w (line # it) = (Inr sfo'', w'')"
  obtains sfo' w' it' where "loop_body sfo w line it = Inr (sfo', w', it')"
    "scan sfo' w' it' = (Inr sfo'', w'')"
  using assms by (auto split: sum.splits prod.splits)

subsection \<open>Invariants of the loop\<close>

lemma add_section_map_of:
  "map_of (add_section sfo name sec) = (map_of sfo)(name \<mapsto> sec)"
  by (simp add: add_section_def update_conv')

lemma add_section_keys:
  "fst ` set (add_section sfo name sec) = insert name (fst ` set sfo)"
  by (simp add: add_section_def dom_update)

lemma add_section_distinct:
  "distinct (map fst sfo) \<Longrightarrow> distinct (map fst (add_section sfo name sec))"
  by (simp add: add_section_def distinct_update)


lemma scan_distinct:
  "scan sfo w ls = (Inr sfo', w') \<Longrightarrow> distinct (map fst sfo) \<Longrightarrow> distinct (map fst sfo')"
proof (induction sfo w ls rule: scan_induct')
  case (Nil sfo w)
  then show ?case by simp
next
  case (Cons sfo w line it)
  from Cons.prems(1) obtain sfo1 w1 it1 where
    step: "loop_body sfo w line it = Inr (sfo1, w1, it1)" and rest: "scan sfo1 w1 it1 = (Inr sfo', w')"
    by (rule scan_Cons_Inr)
  from step Cons.prems(2) have "distinct (map fst sfo1)"
    by (cases rule: loop_body_Inr_cases) (auto simp: add_section_distinct)
  with Cons.IH [OF step rest] show ?case by blast
qed

lemma loop_body_actions:
  assumes "loop_body sfo w line it = Inr (sfo', w', it')"
  shows "set (actions w') \<subseteq> set (actions w)"
  using assms
proof (cases rule: loop_body_Inr_cases)
  case (violation cols body bad)
  from violation(9) have "actions w' = remove1 (header_title line) (actions w)"
    by simp
  then show ?thesis
    using set_remove1_subset [of "header_title line" "actions w"] by simp
qed simp_all

lemma loop_body_keys:
  assumes "loop_body sfo w line it = Inr (sfo', w', it')"
  shows "fst ` set sfo' \<subseteq> fst ` set sfo \<union> set (actions w) \<union> {''sn''}"
  using assms
proof (cases rule: loop_body_Inr_cases)
  case (parsed cols body rest)
  from parsed(3) have "header_title line \<in> set (actions w) \<union> {''sn''}"
    unfolding parsed_title_def by blast
  with parsed(7) show ?thesis
    by (simp only: add_section_keys) blast
qed auto

lemma scan_keys_requested:
  "scan sfo w ls = (Inr sfo', w') \<Longrightarrow>
   fst ` set sfo' \<subseteq> fst ` set sfo \<union> set (actions w) \<union> {''sn''} \<and>
   set (actions w') \<subseteq> set (actions w)"
proof (induction sfo w ls rule: scan_induct')
  case (Nil sfo w)
  then show ?case by auto
next
  case (Cons sfo w line it)
  from Cons.prems(1) obtain sfo1 w1 it1 where
    step: "loop_body sfo w line it = Inr (sfo1, w1, it1)" and rest: "scan sfo1 w1 it1 = (Inr sfo', w')"
    by (rule scan_Cons_Inr)
  from Cons.IH [OF step rest] loop_body_keys [OF step] loop_body_actions [OF step]
  show ?case by blast
qed

lemma section_at_prefix:
  assumes "section_at ls name sec"
  shows "section_at (pfx @ ls) name sec"
proof -
  from assms obtain pre h cols body post where
    "ls = pre @ h # body @ post" and *: "SECTION_HEADER_PATTERN h" "header_title h = name"
    "header_columns h = Some cols" "list_all (data_row (length cols)) body"
    "at_boundary post" "sec = finished (Section name cols h) body"
    unfolding section_at_def by blast
  then have "pfx @ ls = (pfx @ pre) @ h # body @ post"
    by simp
  with * show ?thesis
    unfolding section_at_def by blast
qed

lemma scan_sections:
  "scan sfo w ls = (Inr sfo', w') \<Longrightarrow> map_of sfo' name = Some sec \<Longrightarrow>
   map_of sfo name = Some sec \<or> section_at ls name sec"
proof (induction sfo w ls rule: scan_induct')
  case (Nil sfo w)
  then show ?case by simp
next
  case (Cons sfo w line it)
  from Cons.prems(1) obtain sfo1 w1 it1 where
    step: "loop_body sfo w line it = Inr (sfo1, w1, it1)" and rest: "scan sfo1 w1 it1 = (Inr sfo', w')"
    by (rule scan_Cons_Inr)
  from Cons.IH [OF step rest Cons.prems(2)]
  have later: "map_of sfo1 name = Some sec \<or> section_at it1 name sec" .
  from step show ?case
  proof (cases rule: loop_body_Inr_cases)
    case skip
    with later section_at_prefix [of it name sec "[line]"] show ?thesis by auto
  next
    case (violation cols body bad)
    with later section_at_prefix [of it1 name sec "line # body @ [bad]"] show ?thesis by auto
  next
    case (parsed cols body rest)
    have it: "\<exists>pfx. line # it = pfx @ it1"
    proof (cases rest)
      case Nil
      with parsed have "line # it = (line # it) @ it1" by simp
      then show ?thesis by blast
    next
      case (Cons b rest')
      with parsed have "line # it = (line # body @ [b]) @ it1" by simp
      then show ?thesis by blast
    qed
    from later show ?thesis
    proof
      assume "section_at it1 name sec"
      moreover from it obtain pfx where "line # it = pfx @ it1" ..
      ultimately have "section_at (line # it) name sec"
        using section_at_prefix [of it1 name sec pfx] by simp
      then show ?thesis ..
    next
      assume m: "map_of sfo1 name = Some sec"
      show ?thesis
      proof (cases "name = header_title line")
        case False
        with m parsed show ?thesis by (simp add: add_section_map_of)
      next
        case True
        with m parsed have "sec = finished (Section name cols line) body"
          by (simp add: add_section_map_of)
        with parsed True have "line # it = [] @ line # body @ rest \<and> SECTION_HEADER_PATTERN line \<and>
          header_title line = name \<and> header_columns line = Some cols \<and>
          list_all (data_row (length cols)) body \<and> at_boundary rest \<and>
          sec = finished (Section name cols line) body" by simp
        then have "section_at (line # it) name sec"
          unfolding section_at_def by blast
        then show ?thesis ..
      qed
    qed
  qed
qed

subsection \<open>The sections of the result\<close>

lemma finished_Section:
  "title (finished (Section name cols h) body) = name"
  "columns (finished (Section name cols h) body) = cols"
  "rows (finished (Section name cols h) body) = table_of body"
  "text_rows (finished (Section name cols h) body) = h # body"
  "data_frame (finished (Section name cols h) body) = Some (cols, table_of body)"
  by (simp_all add: finished_def Section_def)

lemma table_of_shape:
  "list_all (data_row n) body \<Longrightarrow> list_all (\<lambda>row. length row = n) (table_of body)"
  by (induction body) (simp_all add: table_of_def data_row_def)

lemma data_row_not_hash: "list_all (data_row n) body \<Longrightarrow> list_all (\<lambda>l. \<not> startswith_hash l) body"
  by (induction body) (simp_all add: data_row_def)

lemma parse_sections:
  assumes "parse (Some ls) w = (Inr sfo, w')" and "get_section sfo name = Some sec"
  shows "section_at ls name sec"
  using scan_sections [of "[]" w ls sfo w' name sec] assms
  by (simp add: parse_def get_section_def)

subsection \<open>Steps of the loop at a header line\<close>

lemma not_hash_not_header: "\<not> startswith_hash l \<Longrightarrow> \<not> SECTION_HEADER_PATTERN l"
  by (cases l) (auto simp: startswith_hash_def SECTION_HEADER_PATTERN_def)



text \<open>A section that is parsed without a violation is stored, and the loop goes on behind
  the line that ended it.\<close>

lemma scan_good:
  "SECTION_HEADER_PATTERN h \<Longrightarrow> header_columns h = Some cols \<Longrightarrow>
   parsed_title w (header_title h) \<Longrightarrow> list_all (data_row (length cols)) body \<Longrightarrow>
   at_boundary rest \<Longrightarrow>
   scan sfo w (h # body @ rest) =
     scan (add_section sfo (header_title h) (finished (Section (header_title h) cols h) body))
       w (tl rest)"
  by (simp add: loop_body_good)

text \<open>A row of the wrong length in a requested section: the code is removed, the message
  written, and the loop goes on behind that row.\<close>

lemma scan_violation:
  "SECTION_HEADER_PATTERN h \<Longrightarrow> header_columns h = Some cols \<Longrightarrow>
   header_title h \<in> set (actions w) \<Longrightarrow> list_all (data_row (length cols)) body \<Longrightarrow>
   \<not> startswith_hash bad \<Longrightarrow> length (fields_of bad) \<noteq> length cols \<Longrightarrow>
   scan sfo w (h # body @ bad # rest) =
     scan sfo
       (w\<lparr>actions := remove1 (header_title h) (actions w),
          stderr := error (could_not_parse (header_title h)) (stderr w)\<rparr>)
       rest"
  by (simp add: loop_body_bad parsed_title_def)

text \<open>The same in the summary section when \<^verbatim>\<open>sn\<close> was not requested: \<^verbatim>\<open>remove\<close> raises.\<close>

lemma scan_violation_unrequested:
  "SECTION_HEADER_PATTERN h \<Longrightarrow> header_columns h = Some cols \<Longrightarrow>
   header_title h = ''sn'' \<Longrightarrow> ''sn'' \<notin> set (actions w) \<Longrightarrow>
   list_all (data_row (length cols)) body \<Longrightarrow>
   \<not> startswith_hash bad \<Longrightarrow> length (fields_of bad) \<noteq> length cols \<Longrightarrow>
   scan sfo w (h # body @ bad # rest) = (Inl ValueError, w)"
  by (simp add: loop_body_bad parsed_title_def)

lemma scan_skip_body:
  "list_all (\<lambda>l. \<not> startswith_hash l) body \<Longrightarrow> scan sfo w (body @ rest) = scan sfo w rest"
  by (induction body) (simp_all add: loop_body_not_header not_hash_not_header)

lemma scan_map_of_unchanged:
  "scan sfo w ls = (Inr sfo', w') \<Longrightarrow>
   list_all (\<lambda>l. \<not> (SECTION_HEADER_PATTERN l \<and> header_title l = t)) ls \<Longrightarrow>
   map_of sfo' t = map_of sfo t"
proof (induction sfo w ls rule: scan_induct')
  case (Nil sfo w)
  then show ?case by simp
next
  case (Cons sfo w line it)
  from Cons.prems(1) obtain sfo1 w1 it1 where
    step: "loop_body sfo w line it = Inr (sfo1, w1, it1)" and rest: "scan sfo1 w1 it1 = (Inr sfo', w')"
    by (rule scan_Cons_Inr)
  from Cons.prems(2) have line: "\<not> (SECTION_HEADER_PATTERN line \<and> header_title line = t)"
    and it: "list_all (\<lambda>l. \<not> (SECTION_HEADER_PATTERN l \<and> header_title l = t)) it"
    by simp_all
  from step have "map_of sfo1 t = map_of sfo t \<and>
    list_all (\<lambda>l. \<not> (SECTION_HEADER_PATTERN l \<and> header_title l = t)) it1"
  proof (cases rule: loop_body_Inr_cases)
    case skip
    with it show ?thesis by simp
  next
    case (parsed cols body rest)
    from parsed(1) line have "header_title line \<noteq> t" by blast
    with parsed(7) have "map_of sfo1 t = map_of sfo t"
      by (simp add: add_section_map_of)
    moreover from it parsed(4,9) have "list_all (\<lambda>l. \<not> (SECTION_HEADER_PATTERN l \<and> header_title l = t)) it1"
      by (cases rest) simp_all
    ultimately show ?thesis ..
  next
    case (violation cols body bad)
    with it show ?thesis by simp
  qed
  with Cons.IH [OF step rest] show ?case by simp
qed

lemma distinct_one_entry:
  "distinct (map fst al) \<Longrightarrow> map_of al k = Some v \<Longrightarrow>
   length (filter (\<lambda>(name, sec). name = k) al) = 1"
proof (induction al)
  case Nil
  then show ?case by simp
next
  case (Cons p al)
  obtain n s where p: "p = (n, s)" by (cases p)
  show ?case
  proof (cases "n = k")
    case True
    with Cons.prems p have "k \<notin> fst ` set al" by simp
    then have "\<forall>q \<in> set al. fst q \<noteq> k" by auto
    then have "filter (\<lambda>(name, sec). name = k) al = []"
      by (auto simp: filter_empty_conv)
    with True p show ?thesis by simp
  next
    case False
    with Cons p show ?thesis by simp
  qed
qed

subsection \<open>Sections that were not requested\<close>

text \<open>
  A section that was not requested is skipped: the turn of the loop at its header line
  changes nothing, none of its body lines matches the header pattern, the loop goes on at
  the first line behind the body in the same state, and the result has no entry for its
  code.
\<close>

lemma unrequested_skipped:
  assumes "SECTION_HEADER_PATTERN h" and "header_columns h = Some cols"
    and "header_title h \<notin> set (actions w)" and "header_title h \<noteq> ''sn''"
    and "list_all (\<lambda>l. \<not> startswith_hash l) body"
  shows "loop_body sfo w h (body @ rest) = Inr (sfo, w, body @ rest) \<and>
         list_all (\<lambda>l. \<not> SECTION_HEADER_PATTERN l) body \<and>
         scan sfo w (h # body @ rest) = scan sfo w rest \<and>
         (\<forall>ls sfo' w'. parse (Some ls) w = (Inr sfo', w') \<longrightarrow>
            get_section sfo' (header_title h) = None)"
proof -
  from assms(3,4) have unrequested: "\<not> parsed_title w (header_title h)"
    by (simp add: parsed_title_def)
  with assms(1,2) have step: "loop_body sfo w h (body @ rest) = Inr (sfo, w, body @ rest)"
    by (rule loop_body_skip)
  from assms(5) have no_header: "list_all (\<lambda>l. \<not> SECTION_HEADER_PATTERN l) body"
    by (induction body) (simp_all add: not_hash_not_header)
  from step have "scan sfo w (h # body @ rest) = scan sfo w (body @ rest)"
    by simp
  also from assms(5) have "\<dots> = scan sfo w rest"
    by (rule scan_skip_body)
  finally have resume: "scan sfo w (h # body @ rest) = scan sfo w rest" .
  have absent: "get_section sfo' (header_title h) = None"
    if "parse (Some ls) w = (Inr sfo', w')" for ls sfo' w'
  proof -
    from that have "scan [] w ls = (Inr sfo', w')"
      by (simp add: parse_def)
    from scan_keys_requested [OF this] assms(3,4) have "header_title h \<notin> fst ` set sfo'"
      by auto
    then show ?thesis
      by (simp add: get_section_def map_of_eq_None_iff)
  qed
  from step no_header resume absent show ?thesis
    by blast
qed

text \<open>
  The next header line is recognised: when the line behind the skipped body is the header
  line of a section that is parsed, that section is parsed and stored.
\<close>

lemma skipped_then_parsed:
  assumes "SECTION_HEADER_PATTERN h" and "header_columns h = Some cols"
    and "header_title h \<notin> set (actions w)" and "header_title h \<noteq> ''sn''"
    and "list_all (\<lambda>l. \<not> startswith_hash l) body"
    and "SECTION_HEADER_PATTERN h2" and "header_columns h2 = Some cols2"
    and "parsed_title w (header_title h2)"
    and "list_all (data_row (length cols2)) body2" and "at_boundary rest"
  shows "scan sfo w (h # body @ h2 # body2 @ rest) =
           scan (add_section sfo (header_title h2)
                   (finished (Section (header_title h2) cols2 h2) body2)) w (tl rest)"
proof -
  from unrequested_skipped [OF assms(1-5), of sfo "h2 # body2 @ rest"]
  have "scan sfo w (h # body @ h2 # body2 @ rest) = scan sfo w (h2 # body2 @ rest)"
    by blast
  also have "\<dots> = scan (add_section sfo (header_title h2)
                   (finished (Section (header_title h2) cols2 h2) body2)) w (tl rest)"
    using assms(6-10) by (rule scan_good)
  finally show ?thesis .
qed

subsection \<open>From the start of the file to a turn of the loop\<close>

lemma turns_scan:
  "(sfo1, w1, ls1) \<in> set (turns sfo w ls) \<Longrightarrow> scan sfo w ls = (Inr sfo', w') \<Longrightarrow>
   scan sfo1 w1 ls1 = (Inr sfo', w')"
proof (induction sfo w ls rule: scan_induct')
  case (Nil sfo w)
  then show ?case by simp
next
  case (Cons sfo w line it)
  from Cons.prems(2) obtain sfo2 w2 it2 where
    step: "loop_body sfo w line it = Inr (sfo2, w2, it2)" and rest: "scan sfo2 w2 it2 = (Inr sfo', w')"
    by (rule scan_Cons_Inr)
  from Cons.prems(1) step
  have "(sfo1, w1, ls1) = (sfo, w, line # it) \<or> (sfo1, w1, ls1) \<in> set (turns sfo2 w2 it2)"
    by simp
  then show ?case
  proof
    assume "(sfo1, w1, ls1) = (sfo, w, line # it)"
    with Cons.prems(2) show ?thesis by simp
  next
    assume "(sfo1, w1, ls1) \<in> set (turns sfo2 w2 it2)"
    from Cons.IH [OF step this rest] show ?thesis .
  qed
qed

lemma turns_distinct:
  "(sfo1, w1, ls1) \<in> set (turns sfo w ls) \<Longrightarrow> distinct (map fst sfo) \<Longrightarrow>
   distinct (map fst sfo1)"
proof (induction sfo w ls rule: scan_induct')
  case (Nil sfo w)
  then show ?case by simp
next
  case (Cons sfo w line it)
  show ?case
  proof (cases "(sfo1, w1, ls1) = (sfo, w, line # it)")
    case True
    with Cons.prems(2) show ?thesis by simp
  next
    case False
    with Cons.prems(1) obtain sfo2 w2 it2 where
      step: "loop_body sfo w line it = Inr (sfo2, w2, it2)"
      and later: "(sfo1, w1, ls1) \<in> set (turns sfo2 w2 it2)"
      by (auto split: sum.splits)
    from step Cons.prems(2) have "distinct (map fst sfo2)"
      by (cases rule: loop_body_Inr_cases) (auto simp: add_section_distinct)
    with step later show ?thesis by (rule Cons.IH)
  qed
qed

subsection \<open>Valid header lines\<close>

lemma split_nonempty: "split sep s \<noteq> []"
  by (induction s) (simp_all add: Let_def)

lemma split_no_sep: "sep \<notin> set a \<Longrightarrow> split sep a = [a]"
  by (induction a) (auto simp: Let_def)

lemma split_piece: "sep \<notin> set a \<Longrightarrow> split sep (a @ sep # r) = a # split sep r"
  by (induction a) (auto simp: Let_def)

lemma split_pieces:
  "sep \<notin> set a \<Longrightarrow> list_all (\<lambda>f. sep \<notin> set f) fs \<Longrightarrow>
   split sep (a @ concat (map ((#) sep) fs)) = a # fs"
proof (induction fs arbitrary: a)
  case Nil
  then show ?case by (simp add: split_no_sep)
next
  case (Cons f fs)
  then show ?case by (simp add: split_piece)
qed

lemma not_is_word_tab: "\<not> is_word tab"
  by code_simp

lemma header_pattern_line:
  assumes "code \<noteq> []" and "list_all is_word code"
  shows "SECTION_HEADER_PATTERN (''# '' @ code @ tab # r)"
proof -
  from assms(2) have "takeWhile is_word (code @ tab # r) = code"
    "dropWhile is_word (code @ tab # r) = tab # r"
    by (simp_all add: not_is_word_tab list_all_iff takeWhile_append2 dropWhile_append2)
  with assms(1) show ?thesis
    by (simp add: SECTION_HEADER_PATTERN_def)
qed

lemma constituent_match:
  assumes "n \<noteq> []" and "list_all is_digit n" and "name \<noteq> []" and "newline \<notin> set name"
  shows "SECTION_HEADER_CONSTITUENT (''['' @ n @ '']'' @ name) = Some name"
proof -
  have "\<not> is_digit CHR '']''"
    by code_simp
  with assms(2) have ds: "takeWhile is_digit (n @ '']'' @ name) = n"
    "dropWhile is_digit (n @ '']'' @ name) = '']'' @ name"
    by (simp_all add: list_all_iff takeWhile_append2 dropWhile_append2)
  from assms(4) have g: "takeWhile (\<lambda>c. c \<noteq> newline) name = name"
    by (auto simp: takeWhile_eq_all_conv)
  have "SECTION_HEADER_CONSTITUENT (''['' @ n @ '']'' @ name) =
          (if n \<noteq> [] \<and> name \<noteq> [] then Some name else None)"
    unfolding SECTION_HEADER_CONSTITUENT_def Let_def
    by (simp add: ds [simplified] g)
  with assms(1,3) show ?thesis
    by simp
qed

lemma strip_replace_no_newline: "newline \<notin> set (strip_replace f)"
  by (simp add: strip_replace_def)

lemma check_and_clean_field:
  assumes "strip_replace f = ''['' @ n @ '']'' @ name" and "n \<noteq> []" and "list_all is_digit n"
    and "name \<noteq> []"
  shows "check_and_clean f err = (Inr (lower name), err)"
proof -
  from strip_replace_no_newline [of f] assms(1) have "newline \<notin> set name"
    by simp
  with assms show ?thesis
    by (simp add: check_and_clean_def constituent_match del: append.simps)
qed

subsection \<open>Literal coercion\<close>













subsection \<open>Text mode\<close>

lemma concat_iter_lines: "concat (iter_lines s) = s"
  by (induction s) (auto split: list.splits)

lemma universal_newlines_id: "carriage_return \<notin> set s \<Longrightarrow> universal_newlines s = s"
  by (induction s rule: universal_newlines.induct) auto

lemma concat_readlines: "concat (readlines content) = universal_newlines content"
  by (simp add: readlines_def concat_iter_lines)

subsection \<open>Evaluation of the examples\<close>

lemma parse_vchk_example:
  "parse (Some vchk_example) requested_dp =
     (Inr [(''sn'', sn_example), (''dp'', dp_example)], requested_dp)"
  by code_simp

lemma parse_vchk_twice:
  "parse (Some vchk_twice) requested_dp = (Inr [(''dp'', dp_example)], requested_dp)"
  by code_simp

lemma parse_file_vchk_example:
  "parse_file (Some (concat vchk_example)) requested_dp =
     (Inr [(''sn'', sn_example), (''dp'', dp_example)], requested_dp)"
  by code_simp

section \<open>The claims\<close>

text \<open>
  C1 (hand-off of the cursor). The claim says that \<^verbatim>\<open>Section.parse\<close> stops at the line
  that ends the section without consuming it, so that the loop of \<^verbatim>\<open>parse\<close> reads that
  line next. The code reads the line with \<^verbatim>\<open>next\<close> and drops it (lemma
  \<open>Section_parse_good\<close>: the iterator that comes back is \<open>tl rest\<close>). On the file
  \<open>vchk_adjacent\<close> the summary section ends at the header line of \<^verbatim>\<open>DP\<close> (line 2); after
  \<^verbatim>\<open>Section.parse\<close> the iterator is at line 3, the row of \<^verbatim>\<open>DP\<close>, the loop never sees the
  header line, and the requested section \<^verbatim>\<open>dp\<close> is not in the result.
\<close>

theorem C1_boundary_line_consumed:
  "at_boundary (drop 2 vchk_adjacent) \<and>
   Section_parse (Section ''sn'' [''id'', ''key'', ''value''] (hd vchk_adjacent))
       (tl vchk_adjacent) =
     (Inr sn_adjacent, drop 3 vchk_adjacent) \<and>
   drop 3 vchk_adjacent = [tsv [''DP'', ''0'', ''12'', ''3.5''],
                           tsv [''# PSC'', ''[2]id'', ''[3]sample''],
                           tsv [''PSC'', ''0'', ''NA12878'']] \<and>
   parse (Some vchk_adjacent) requested_dp = (Inr [(''sn'', sn_adjacent)], requested_dp)"
  by code_simp

text \<open>
  C2 (recovery from a row of the wrong length). For a requested code the code does what
  the claim says (lemma \<open>scan_violation\<close>). For the summary section when \<^verbatim>\<open>sn\<close> was not
  requested it does not (lemma \<open>scan_violation_unrequested\<close>): on the file
  \<open>vchk_short_row\<close> with the request of \<^verbatim>\<open>dp\<close>, \<^verbatim>\<open>_actions.remove("sn")\<close> raises
  \<^verbatim>\<open>ValueError\<close>, which nothing catches: no message is written, the requested section
  \<^verbatim>\<open>dp\<close> behind it is not parsed, and \<^verbatim>\<open>parse\<close> returns no object.
\<close>

theorem C2_summary_violation_raises:
  "parse (Some vchk_short_row) requested_dp = (Inl ValueError, requested_dp)"
  by code_simp







text \<open>
  C5 (a malformed header line is fatal). A header line that the loop reads is checked
  whatever its code (lemma \<open>scan_malformed\<close>). A header line at which the row consumption
  of a parsed section stops is never read by the loop: in \<open>vchk_bad_header\<close> line 2
  matches the header pattern and its fields have no index in brackets, and \<^verbatim>\<open>parse\<close>
  returns an object with the summary section and writes nothing.
\<close>

theorem C5_malformed_header_missed:
  "SECTION_HEADER_PATTERN (vchk_bad_header ! 2) \<and>
   header_columns (vchk_bad_header ! 2) = None \<and>
   parse (Some vchk_bad_header) requested_dp = (Inr [(''sn'', sn_adjacent)], requested_dp)"
  by code_simp

text \<open>
  C6 (column extraction). A valid header line is \<^verbatim>\<open>#\<close>, a space, a code of word
  characters, and then one or more fields, each behind a tab. Each field, once trimmed of
  the white space around it (\<^verbatim>\<open>strip\<close>, and the line feed of the last field), reads
  \<^verbatim>\<open>[n]name\<close> with digits \<open>n\<close> and a name that is not empty. For every such line the
  loop sees a header line with the lower-cased code, and the columns it extracts are the
  names of the fields, index in brackets stripped, lower-cased, in the order of the
  fields. The trimming is that of the field, before the index is stripped, as
  \<^verbatim>\<open>check_and_clean\<close> does it: white space between the closing bracket and the name
  belongs to the name.
\<close>

theorem C6_column_extraction:
  assumes "code \<noteq> []" and "list_all is_word code" and "flds \<noteq> []"
    and "list_all2 (\<lambda>f (n, name). tab \<notin> set f \<and> strip_replace f = ''['' @ n @ '']'' @ name \<and>
                      n \<noteq> [] \<and> list_all is_digit n \<and> name \<noteq> []) flds cols"
  shows "SECTION_HEADER_PATTERN (''# '' @ code @ concat (map ((#) tab) flds)) \<and>
         header_title (''# '' @ code @ concat (map ((#) tab) flds)) = lower code \<and>
         map_check_and_clean (tl (split tab (''# '' @ code @ concat (map ((#) tab) flds)))) err =
           (Inr (map (\<lambda>(n, name). lower name) cols), err)"
proof -
  let ?line = "''# '' @ code @ concat (map ((#) tab) flds)"
  from assms(3) obtain f fs where "flds = f # fs"
    by (cases flds) auto
  then have "?line = ''# '' @ code @ tab # (f @ concat (map ((#) tab) fs))"
    by simp
  with header_pattern_line [OF assms(1,2)] have pattern: "SECTION_HEADER_PATTERN ?line"
    by (simp only:)
  from assms(2) have "tab \<notin> set code"
    using not_is_word_tab by (auto simp: list_all_iff)
  then have "tab \<notin> set (''# '' @ code)"
    by (simp add: tab_def)
  moreover from assms(4) have "list_all (\<lambda>f. tab \<notin> set f) flds"
    by (induction flds cols rule: list_all2_induct) auto
  ultimately have "split tab ((''# '' @ code) @ concat (map ((#) tab) flds)) = (''# '' @ code) # flds"
    by (rule split_pieces)
  then have pieces: "split tab ?line = (''# '' @ code) # flds"
    by simp
  then have title: "header_title ?line = lower code"
    by (simp add: header_title_def)
  from assms(4) have "map_check_and_clean flds err = (Inr (map (\<lambda>(n, name). lower name) cols), err)"
    by (induction flds cols rule: list_all2_induct) (auto simp: check_and_clean_field)
  with pieces pattern title show ?thesis
    by simp
qed

theorem C6_column_extraction_witness:
  "''# QUAL'' @ tab # ''[2]id'' @ tab # ''[3]Quality'' @ tab # '' [4]Number of sites '' @ [newline] =
     ''# '' @ ''QUAL'' @ concat (map ((#) tab) [''[2]id'', ''[3]Quality'', '' [4]Number of sites '' @ [newline]]) \<and>
   SECTION_HEADER_PATTERN
     (''# QUAL'' @ tab # ''[2]id'' @ tab # ''[3]Quality'' @ tab # '' [4]Number of sites '' @ [newline]) \<and>
   header_title
     (''# QUAL'' @ tab # ''[2]id'' @ tab # ''[3]Quality'' @ tab # '' [4]Number of sites '' @ [newline]) = ''qual'' \<and>
   map_check_and_clean
     (tl (split tab (''# QUAL'' @ tab # ''[2]id'' @ tab # ''[3]Quality'' @ tab # '' [4]Number of sites '' @ [newline])))
     [] = (Inr [''id'', ''quality'', ''number of sites''], [])"
proof -
  let ?flds = "[''[2]id'', ''[3]Quality'', '' [4]Number of sites '' @ [newline]]"
  let ?cols = "[(''2'', ''id''), (''3'', ''Quality''), (''4'', ''Number of sites'')]"
  have line: "''# QUAL'' @ tab # ''[2]id'' @ tab # ''[3]Quality'' @ tab # '' [4]Number of sites '' @ [newline] =
     ''# '' @ ''QUAL'' @ concat (map ((#) tab) ?flds)"
    by simp
  have 1: "''QUAL'' \<noteq> []" "list_all is_word ''QUAL''" "?flds \<noteq> []"
    by code_simp+
  have 2: "list_all2 (\<lambda>f (n, name). tab \<notin> set f \<and> strip_replace f = ''['' @ n @ '']'' @ name \<and>
                      n \<noteq> [] \<and> list_all is_digit n \<and> name \<noteq> []) ?flds ?cols"
    by code_simp
  have 3: "lower ''QUAL'' = ''qual''" "map (\<lambda>(n, name). lower name) ?cols = [''id'', ''quality'', ''number of sites'']"
    by code_simp+
  from C6_column_extraction [OF 1 2, of "[]"] line show ?thesis
    unfolding 3 by (simp only:)
qed

text \<open>
  C7 (raw-text round trip). As stated the claim fails: the file is opened in text mode,
  and the lines that reach \<^verbatim>\<open>Section\<close> have a line feed where the file has a carriage
  return and a line feed. For \<open>crlf_example\<close>, which is one summary section, the
  concatenation of \<^verbatim>\<open>get_text\<close> is not the text of the file: it has no carriage return.
\<close>

theorem C7_counterexample:
  "parse_file (Some crlf_example) requested_dp = (Inr [(''sn'', sn_crlf)], requested_dp) \<and>
   get_section [(''sn'', sn_crlf)] ''sn'' = Some sn_crlf \<and>
   concat (get_text sn_crlf) \<noteq> crlf_example \<and>
   carriage_return \<in> set crlf_example \<and>
   carriage_return \<notin> set (concat (get_text sn_crlf))"
  by code_simp

text \<open>
  C7, amended. For every section registered in the object that \<^verbatim>\<open>parse\<close> returns for
  a file, the lines that \<^verbatim>\<open>get_text\<close> gives are a block of the lines of the file as text
  mode reads them: the header line of the section (a line matching the header pattern,
  with the section's code), followed by all of its body lines in their order (the lines
  after the header up to the next line that starts with \<^verbatim>\<open>#\<close>, or to the end of the
  file). Their concatenation is the header line followed by the body lines, and it stands
  at its place in the text of the file after the translation of the line terminators to
  line feeds. For a file without carriage returns it stands at its place in the text of
  the file itself, character for character, line terminators included.
\<close>

theorem C7_raw_text_round_trip:
  assumes "parse_file (Some content) w = (Inr sfo, w')" and "get_section sfo name = Some sec"
  shows "\<exists>pre h body post.
           readlines content = pre @ h # body @ post \<and> SECTION_HEADER_PATTERN h \<and>
           header_title h = name \<and> list_all (\<lambda>l. \<not> startswith_hash l) body \<and>
           at_boundary post \<and> get_text sec = h # body \<and>
           concat (get_text sec) = h @ concat body \<and>
           universal_newlines content = concat pre @ concat (get_text sec) @ concat post \<and>
           (carriage_return \<notin> set content \<longrightarrow>
              content = concat pre @ concat (get_text sec) @ concat post)"
proof -
  from assms(1) have "parse (Some (readlines content)) w = (Inr sfo, w')"
    by (simp add: parse_file_def)
  from parse_sections [OF this assms(2)] obtain pre h cols body post where
    ls: "readlines content = pre @ h # body @ post"
    and h: "SECTION_HEADER_PATTERN h" "header_title h = name"
    and body: "list_all (data_row (length cols)) body" and post: "at_boundary post"
    and sec: "sec = finished (Section name cols h) body"
    unfolding section_at_def by blast
  from sec have raw: "get_text sec = h # body"
    by (simp add: get_text_def finished_Section)
  from ls have "concat (readlines content) = concat pre @ concat (h # body) @ concat post"
    by simp
  with raw have whole: "universal_newlines content = concat pre @ concat (get_text sec) @ concat post"
    by (simp add: concat_readlines)
  then have "carriage_return \<notin> set content \<longrightarrow>
      content = concat pre @ concat (get_text sec) @ concat post"
    using universal_newlines_id [of content] by auto
  with ls h post data_row_not_hash [OF body] raw whole show ?thesis
    by auto
qed

theorem C7_raw_text_round_trip_witness:
  "parse_file (Some (concat vchk_example)) requested_dp =
     (Inr [(''sn'', sn_example), (''dp'', dp_example)], requested_dp) \<and>
   get_section [(''sn'', sn_example), (''dp'', dp_example)] ''dp'' = Some dp_example \<and>
   readlines (concat vchk_example) = vchk_example \<and>
   carriage_return \<notin> set (concat vchk_example) \<and>
   (\<exists>pre h body post.
      readlines (concat vchk_example) = pre @ h # body @ post \<and> SECTION_HEADER_PATTERN h \<and>
      header_title h = ''dp'' \<and> list_all (\<lambda>l. \<not> startswith_hash l) body \<and>
      at_boundary post \<and> get_text dp_example = h # body \<and>
      concat (get_text dp_example) = h @ concat body \<and>
      concat vchk_example = concat pre @ concat (get_text dp_example) @ concat post)"
proof -
  have 1: "get_section [(''sn'', sn_example), (''dp'', dp_example)] ''dp'' = Some dp_example"
    by (simp add: get_section_def)
  have 2: "readlines (concat vchk_example) = vchk_example"
    by code_simp
  have 3: "carriage_return \<notin> set (concat vchk_example)"
    by code_simp
  from C7_raw_text_round_trip [OF parse_file_vchk_example 1] parse_file_vchk_example 1 2 3
  show ?thesis
    by blast
qed

text \<open>
  C8 (row shape of finished sections). For every section in the object that \<^verbatim>\<open>parse\<close>
  returns, the table is built from the section's columns and rows, and every row has as
  many values as there are declared columns.
\<close>

theorem C8_row_shape:
  assumes "parse (Some ls) w = (Inr sfo, w')" and "get_section sfo name = Some sec"
  shows "data_frame sec = Some (columns sec, rows sec) \<and>
         list_all (\<lambda>row. length row = length (columns sec)) (rows sec)"
proof -
  from parse_sections [OF assms] obtain cols h body where
    body: "list_all (data_row (length cols)) body"
    and sec: "sec = finished (Section name cols h) body"
    unfolding section_at_def by blast
  from sec table_of_shape [OF body] show ?thesis
    by (simp add: finished_Section)
qed

theorem C8_row_shape_witness:
  "parse (Some vchk_example) requested_dp =
     (Inr [(''sn'', sn_example), (''dp'', dp_example)], requested_dp) \<and>
   get_section [(''sn'', sn_example), (''dp'', dp_example)] ''sn'' = Some sn_example \<and>
   data_frame sn_example = Some (columns sn_example, rows sn_example) \<and>
   list_all (\<lambda>row. length row = length (columns sn_example)) (rows sn_example)"
proof -
  have 1: "get_section [(''sn'', sn_example), (''dp'', dp_example)] ''sn'' = Some sn_example"
    by (simp add: get_section_def)
  from C8_row_shape [OF parse_vchk_example 1] parse_vchk_example 1
  show ?thesis by blast
qed

text \<open>
  C9 (skipping of sections that were not requested). The scan does skip a section whose
  code is neither requested nor \<^verbatim>\<open>sn\<close>, and recognises the header line behind it (lemmas
  \<open>unrequested_skipped\<close> and \<open>skipped_then_parsed\<close>). The example of the claim fails all
  the same: \<open>vchk_adjacent\<close> has the header lines of \<^verbatim>\<open>SN\<close>, \<^verbatim>\<open>DP\<close> and \<^verbatim>\<open>PSC\<close>, the request
  is \<^verbatim>\<open>dp\<close>, and the result holds \<^verbatim>\<open>sn\<close> alone. The header line of \<^verbatim>\<open>DP\<close> is the line at
  which the rows of \<^verbatim>\<open>SN\<close> end; \<^verbatim>\<open>Section.parse\<close> takes it from the iterator, no turn of
  the loop starts at it, and the rows of \<^verbatim>\<open>DP\<close> are passed over like the body of a
  section that was not requested.
\<close>

theorem C9_requested_section_lost:
  "map header_title [vchk_adjacent ! 0, vchk_adjacent ! 2, vchk_adjacent ! 4] =
     [''sn'', ''dp'', ''psc''] \<and>
   actions requested_dp = [''dp''] \<and>
   map fst (turns [] requested_dp vchk_adjacent) = [[], [(''sn'', sn_adjacent)],
     [(''sn'', sn_adjacent)], [(''sn'', sn_adjacent)]] \<and>
   map (snd \<circ> snd) (turns [] requested_dp vchk_adjacent) =
     [vchk_adjacent, drop 3 vchk_adjacent, drop 4 vchk_adjacent, drop 5 vchk_adjacent] \<and>
   fst (parse (Some vchk_adjacent) requested_dp) = Inr [(''sn'', sn_adjacent)] \<and>
   get_section [(''sn'', sn_adjacent)] ''dp'' = None"
  by code_simp

text \<open>
  C10 (duplicate section codes). When a turn of the loop of \<^verbatim>\<open>parse\<close> starts at a header
  line whose section is parsed (its code is requested at that moment, or is \<^verbatim>\<open>sn\<close>)
  without a row-shape violation, and no header line of that code is left behind the
  section, then the object that \<^verbatim>\<open>parse\<close> returns holds exactly one entry for the code,
  and \<^verbatim>\<open>get_section\<close> gives the section built from this occurrence, whatever sections of
  the same code were parsed before it: \<^verbatim>\<open>add_section\<close> has overwritten them.
\<close>

theorem C10_last_occurrence_wins:
  assumes "(sfo1, w1, h # body @ rest) \<in> set (turns [] w ls)"
    and "SECTION_HEADER_PATTERN h" and "header_columns h = Some cols"
    and "parsed_title w1 (header_title h)"
    and "list_all (data_row (length cols)) body" and "at_boundary rest"
    and "list_all (\<lambda>l. \<not> (SECTION_HEADER_PATTERN l \<and> header_title l = header_title h)) (tl rest)"
    and "parse (Some ls) w = (Inr sfo, w')"
  shows "get_section sfo (header_title h) = Some (finished (Section (header_title h) cols h) body) \<and>
         length (filter (\<lambda>(name, sec). name = header_title h) sfo) = 1"
proof -
  let ?sec = "finished (Section (header_title h) cols h) body"
  let ?sfo = "add_section sfo1 (header_title h) ?sec"
  from assms(8) have "scan [] w ls = (Inr sfo, w')"
    by (simp add: parse_def)
  with assms(1) have "scan sfo1 w1 (h # body @ rest) = (Inr sfo, w')"
    by (rule turns_scan)
  with scan_good [OF assms(2-6), of sfo1]
  have run: "scan ?sfo w1 (tl rest) = (Inr sfo, w')"
    by (simp only:)
  from scan_map_of_unchanged [OF run assms(7)]
  have entry: "map_of sfo (header_title h) = Some ?sec"
    by (simp add: add_section_map_of)
  from turns_distinct [OF assms(1)] have "distinct (map fst sfo1)"
    by simp
  then have "distinct (map fst ?sfo)"
    by (rule add_section_distinct)
  with run have "distinct (map fst sfo)"
    by (rule scan_distinct)
  from distinct_one_entry [OF this entry] entry show ?thesis
    by (simp add: get_section_def)
qed

theorem C10_last_occurrence_wins_witness:
  "(([(''dp'', dp_first)], requested_dp, drop 3 vchk_twice)
      \<in> set (turns [] requested_dp vchk_twice)) \<and>
   header_title (vchk_twice ! 0) = ''dp'' \<and> header_title (vchk_twice ! 3) = ''dp'' \<and>
   parse (Some vchk_twice) requested_dp = (Inr [(''dp'', dp_example)], requested_dp) \<and>
   get_section [(''dp'', dp_example)] ''dp'' = Some dp_example \<and>
   dp_example = finished (Section ''dp'' [''id'', ''bin'', ''fraction''] (vchk_twice ! 3))
                  (drop 4 vchk_twice) \<and>
   dp_example \<noteq> dp_first \<and>
   length (filter (\<lambda>(name, sec). name = ''dp'') [(''dp'', dp_example)]) = 1"
proof -
  let ?h = "vchk_twice ! 3"
  let ?cols = "[''id'', ''bin'', ''fraction'']"
  let ?body = "drop 4 vchk_twice"
  have 0: "drop 3 vchk_twice = ?h # ?body @ []"
    by code_simp
  have 1: "([(''dp'', dp_first)], requested_dp, drop 3 vchk_twice)
             \<in> set (turns [] requested_dp vchk_twice)"
    by code_simp
  have 2: "SECTION_HEADER_PATTERN ?h"
    by code_simp
  have 3: "header_columns ?h = Some ?cols"
    by code_simp
  have 4: "parsed_title requested_dp (header_title ?h)"
    by code_simp
  have 5: "list_all (data_row (length ?cols)) ?body"
    by code_simp
  have 6: "at_boundary []"
    by (simp add: at_boundary_def)
  have 7: "list_all (\<lambda>l. \<not> (SECTION_HEADER_PATTERN l \<and> header_title l = header_title ?h)) (tl [])"
    by simp
  have 9: "header_title ?h = ''dp''" "header_title (vchk_twice ! 0) = ''dp''"
    by code_simp+
  have 10: "finished (Section ''dp'' ?cols ?h) ?body = dp_example"
    by code_simp
  have 11: "dp_example \<noteq> dp_first"
    by code_simp
  from C10_last_occurrence_wins [OF 1 [unfolded 0] 2 3 4 5 6 7 parse_vchk_twice] 1 9 10 11
    parse_vchk_twice
  show ?thesis
    by (simp only:) simp
qed

end
